theory Spec2Isabelle
  imports Complex_Main "HOL-Library.Log_Nat"
begin

section \<open>IEEE binary64 numbers, as numpy's float64 arrays hold them\<close>

text \<open>
  The notebook computes on \<^verbatim>\<open>numpy\<close> arrays of dtype \<^verbatim>\<open>float64\<close>. A value is a finite
  number, an infinity or NaN. A finite value is kept as the rational it denotes; the two
  signed zeros are one value \<open>Fin 0\<close> (they compare equal, and no operation of the notebook
  tells them apart numerically).
\<close>

datatype f64 = Fin rat | PInf | NInf | NaN

definition pow2 :: "int \<Rightarrow> rat" where
  "pow2 e = (if 0 \<le> e then 2 ^ nat e else 1 / 2 ^ nat (- e))"

text \<open>\<open>ilog2 x\<close> is the binary exponent of a positive rational: \<open>2 ^ ilog2 x \<le> x < 2 ^ (ilog2 x + 1)\<close>.\<close>

definition ilog2 :: "rat \<Rightarrow> int" where
  "ilog2 x = (if 1 \<le> x then bitlen \<lfloor>x\<rfloor> - 1 else - bitlen (\<lceil>1 / x\<rceil> - 1))"

definition round_even :: "rat \<Rightarrow> int" where
  "round_even t =
     (let f = \<lfloor>t\<rfloor>; d = t - of_int f
      in if d < 1 / 2 then f else if 1 / 2 < d then f + 1 else if even f then f else f + 1)"

text \<open>
  Rounding of an exact result to binary64, round-to-nearest, ties to even: 53 significant
  bits, least exponent \<open>-1022\<close> (subnormals have spacing \<open>2 ^ -1074\<close>), overflow to an
  infinity once the rounded magnitude reaches \<open>2 ^ 1024\<close>.
\<close>

definition fl64 :: "rat \<Rightarrow> f64" where
  "fl64 v =
     (if v = 0 then Fin 0
      else let e = max (ilog2 \<bar>v\<bar>) (- 1022);
               q = pow2 (e - 52);
               r = of_int (round_even (\<bar>v\<bar> / q)) * q
           in if pow2 1024 \<le> r then (if 0 < v then PInf else NInf)
              else Fin (if 0 < v then r else - r))"

text \<open>A rational is a binary64 number when rounding leaves it alone.\<close>

definition is_double :: "rat \<Rightarrow> bool" where
  "is_double v \<longleftrightarrow> fl64 v = Fin v"

fun fneg :: "f64 \<Rightarrow> f64" where
  "fneg (Fin a) = Fin (- a)"
| "fneg PInf = NInf"
| "fneg NInf = PInf"
| "fneg NaN = NaN"

fun fadd :: "f64 \<Rightarrow> f64 \<Rightarrow> f64" where
  "fadd (Fin a) (Fin b) = fl64 (a + b)"
| "fadd NaN _ = NaN"
| "fadd _ NaN = NaN"
| "fadd PInf NInf = NaN"
| "fadd NInf PInf = NaN"
| "fadd PInf _ = PInf"
| "fadd _ PInf = PInf"
| "fadd NInf _ = NInf"
| "fadd _ NInf = NInf"

definition fsub :: "f64 \<Rightarrow> f64 \<Rightarrow> f64" where
  "fsub a b = fadd a (fneg b)"

fun fsign_inf :: "bool \<Rightarrow> f64" where
  "fsign_inf True = PInf"
| "fsign_inf False = NInf"

fun fmul :: "f64 \<Rightarrow> f64 \<Rightarrow> f64" where
  "fmul (Fin a) (Fin b) = fl64 (a * b)"
| "fmul NaN _ = NaN"
| "fmul _ NaN = NaN"
| "fmul (Fin a) PInf = (if a = 0 then NaN else fsign_inf (0 < a))"
| "fmul (Fin a) NInf = (if a = 0 then NaN else fsign_inf (a < 0))"
| "fmul PInf (Fin b) = (if b = 0 then NaN else fsign_inf (0 < b))"
| "fmul NInf (Fin b) = (if b = 0 then NaN else fsign_inf (b < 0))"
| "fmul PInf PInf = PInf"
| "fmul NInf NInf = PInf"
| "fmul PInf NInf = NInf"
| "fmul NInf PInf = NInf"

text \<open>
  Division. A zero divisor only arises as the element count of an empty array, which is
  \<open>+0.0\<close>: \<open>0 / 0\<close> is NaN and a nonzero number over \<open>+0.0\<close> is the infinity of its sign.
\<close>

fun fdiv :: "f64 \<Rightarrow> f64 \<Rightarrow> f64" where
  "fdiv (Fin a) (Fin b) =
     (if b = 0 then (if a = 0 then NaN else fsign_inf (0 < a)) else fl64 (a / b))"
| "fdiv NaN _ = NaN"
| "fdiv _ NaN = NaN"
| "fdiv (Fin a) PInf = Fin 0"
| "fdiv (Fin a) NInf = Fin 0"
| "fdiv PInf (Fin b) = fsign_inf (0 \<le> b)"
| "fdiv NInf (Fin b) = fsign_inf (b < 0)"
| "fdiv PInf PInf = NaN"
| "fdiv PInf NInf = NaN"
| "fdiv NInf PInf = NaN"
| "fdiv NInf NInf = NaN"

text \<open>
  C's \<^verbatim>\<open>fmod\<close> on finite arguments, \<open>b \<noteq> 0\<close>: the remainder of the division truncated
  towards zero. It has the sign of \<open>a\<close>, and it is exact (the remainder of two binary64
  numbers is a binary64 number), so nothing is rounded.
\<close>

definition c_fmod :: "rat \<Rightarrow> rat \<Rightarrow> rat" where
  "c_fmod a b = (let q = a / b; t = (if 0 \<le> q then \<lfloor>q\<rfloor> else \<lceil>q\<rceil>) in a - b * of_int t)"

text \<open>
  \<^verbatim>\<open>np.mod\<close> on float64 (numpy's \<^verbatim>\<open>npy_divmod\<close>): \<^verbatim>\<open>mod = fmod(a, b)\<close>; a zero divisor
  gives NaN; a nonzero \<^verbatim>\<open>mod\<close> whose sign differs from that of \<^verbatim>\<open>b\<close> is adjusted by the
  floating-point addition \<^verbatim>\<open>mod += b\<close>; a zero \<^verbatim>\<open>mod\<close> stays zero. \<^verbatim>\<open>fmod\<close> of an
  infinite or NaN dividend, or by NaN, is NaN; \<^verbatim>\<open>fmod\<close> of a finite \<open>a\<close> by an infinity is \<open>a\<close>.
\<close>

fun np_mod :: "f64 \<Rightarrow> f64 \<Rightarrow> f64" where
  "np_mod (Fin a) (Fin b) =
     (if b = 0 then NaN
      else let m = c_fmod a b
           in if m \<noteq> 0 \<and> ((b < 0) \<noteq> (m < 0)) then fl64 (m + b) else Fin m)"
| "np_mod (Fin a) PInf = (if a < 0 then PInf else Fin a)"
| "np_mod (Fin a) NInf = (if 0 < a then NInf else Fin a)"
| "np_mod _ _ = NaN"

section \<open>The notebook's classes\<close>

datatype py_error = AttributeError | ValueError

subsection \<open>The spatial domain\<close>

record PeriodicSpace =
  length_x :: f64
  length_y :: f64

definition get_sizes :: "PeriodicSpace \<Rightarrow> f64 \<times> f64" where
  "get_sizes sp = (length_x sp, length_y sp)"

text \<open>
  \<^verbatim>\<open>return np.mod(x, self.length_x), np.mod(y, self.length_y)\<close>, element by element; a
  scalar argument is an array of one element.
\<close>

definition normalize_positions :: "PeriodicSpace \<Rightarrow> f64 list \<Rightarrow> f64 list \<Rightarrow> f64 list \<times> f64 list" where
  "normalize_positions sp xs ys =
     (map (\<lambda>a. np_mod a (length_x sp)) xs, map (\<lambda>a. np_mod a (length_y sp)) ys)"

subsection \<open>The random number generator\<close>

text \<open>
  \<^verbatim>\<open>numpy.random.RandomState\<close> is not part of the notebook. A generator is the sequence of
  standard-normal draws it is still going to produce, fixed by its hidden state; the draws
  are finite numbers. \<^verbatim>\<open>rng.normal(size=n)\<close> returns the next \<open>n\<close> draws and advances
  the generator.
\<close>

type_synonym RandomState = "nat \<Rightarrow> rat"

definition normal :: "RandomState \<Rightarrow> nat \<Rightarrow> f64 list \<times> RandomState" where
  "normal g n = (map (\<lambda>i. Fin (g i)) [0..<n], (\<lambda>i. g (n + i)))"

subsection \<open>A group of particles\<close>

text \<open>
  \<open>self_x\<close> and \<open>self_y\<close> are \<^verbatim>\<open>self.x\<close> and \<^verbatim>\<open>self.y\<close>: \<open>None\<close> is Python's \<^verbatim>\<open>None\<close>
  (the constructor's default), \<open>Some\<close> a one-dimensional float64 array. The two arrays are
  distinct objects, as \<^verbatim>\<open>run_random_walk\<close> creates them.
\<close>

record Particles =
  rng :: RandomState
  space :: PeriodicSpace
  self_x :: "f64 list option"
  self_y :: "f64 list option"
  step_length :: f64
  steps_done :: int

text \<open>\<^verbatim>\<open>__init__\<close> stores its arguments and sets the counter to zero; it checks nothing.\<close>

definition Particles_init ::
  "RandomState \<Rightarrow> PeriodicSpace \<Rightarrow> f64 list option \<Rightarrow> f64 list option \<Rightarrow> f64 \<Rightarrow> py_error + Particles" where
  "Particles_init g sp xo yo sl =
     Inr \<lparr>rng = g, space = sp, self_x = xo, self_y = yo, step_length = sl, steps_done = 0\<rparr>"

text \<open>
  \<^verbatim>\<open>self.x += self.step_length * self.rng.normal(size=self.x.shape)\<close>: on \<^verbatim>\<open>None\<close> the
  attribute \<^verbatim>\<open>shape\<close> does not exist and AttributeError is raised before anything is drawn.
\<close>

definition displace :: "f64 \<Rightarrow> f64 list \<Rightarrow> f64 list \<Rightarrow> f64 list" where
  "displace sl vs ds = map2 fadd vs (map (fmul sl) ds)"

definition move :: "Particles \<Rightarrow> py_error + Particles" where
  "move p =
     (case self_x p of
        None \<Rightarrow> Inl AttributeError
      | Some xs \<Rightarrow>
          let (dx, g1) = normal (rng p) (length xs);
              xs1 = displace (step_length p) xs dx
          in (case self_y p of
                None \<Rightarrow> Inl AttributeError
              | Some ys \<Rightarrow>
                  let (dy, g2) = normal g1 (length ys);
                      ys1 = displace (step_length p) ys dy;
                      (xn, yn) = normalize_positions (space p) xs1 ys1
                  in Inr (p\<lparr>rng := g2, self_x := Some xn, self_y := Some yn,
                            steps_done := steps_done p + 1\<rparr>)))"

text \<open>
  \<^verbatim>\<open>ndarray.sum\<close> accumulates in float64 starting from zero; \<^verbatim>\<open>mean\<close> divides the sum by the
  element count; \<^verbatim>\<open>var\<close> (default \<^verbatim>\<open>ddof=0\<close>) subtracts the mean, squares, sums and divides
  by the element count. For long arrays numpy groups the additions of a sum pairwise, which
  can change the last bits of a sum and nothing else; the additions are grouped from the
  left here.
\<close>

definition np_sum :: "f64 list \<Rightarrow> f64" where
  "np_sum vs = foldl fadd (Fin 0) vs"

definition np_mean :: "f64 list \<Rightarrow> f64" where
  "np_mean vs = fdiv (np_sum vs) (Fin (of_nat (length vs)))"

definition np_var :: "f64 list \<Rightarrow> f64" where
  "np_var vs =
     (let arrmean = np_mean vs;
          dev = map (\<lambda>a. fsub a arrmean) vs;
          sq = map (\<lambda>a. fmul a a) dev
      in fdiv (np_sum sq) (Fin (of_nat (length vs))))"

definition center_of_mass :: "Particles \<Rightarrow> py_error + f64 \<times> f64" where
  "center_of_mass p =
     (case self_x p of
        None \<Rightarrow> Inl AttributeError
      | Some xs \<Rightarrow> (case self_y p of
                      None \<Rightarrow> Inl AttributeError
                    | Some ys \<Rightarrow> Inr (np_mean xs, np_mean ys)))"

definition moment_of_inertia :: "Particles \<Rightarrow> py_error + f64" where
  "moment_of_inertia p =
     (case self_x p of
        None \<Rightarrow> Inl AttributeError
      | Some xs \<Rightarrow> (case self_y p of
                      None \<Rightarrow> Inl AttributeError
                    | Some ys \<Rightarrow> Inr (fadd (np_var xs) (np_var ys))))"

text \<open>A row of the diagnostics data frame: its index label and its three columns.\<close>

record diag_row =
  d_index :: int
  d_center_of_mass_x :: f64
  d_center_of_mass_y :: f64
  d_moment_of_inertia :: f64

definition diagnostics :: "Particles \<Rightarrow> py_error + diag_row list" where
  "diagnostics p =
     (case center_of_mass p of
        Inl e \<Rightarrow> Inl e
      | Inr com \<Rightarrow>
          (case moment_of_inertia p of
             Inl e \<Rightarrow> Inl e
           | Inr mi \<Rightarrow>
               Inr [\<lparr>d_index = steps_done p, d_center_of_mass_x = fst com,
                     d_center_of_mass_y = snd com, d_moment_of_inertia = mi\<rparr>]))"

text \<open>
  \<^verbatim>\<open>pd.DataFrame({"x": self.x, "y": self.y})\<close>: the two columns of the frame. pandas raises
  ValueError when both values are scalars (here \<^verbatim>\<open>None\<close>: "If using all scalar values, you
  must pass an index") and when the arrays differ in length; a single \<^verbatim>\<open>None\<close> is repeated
  along the other column.
\<close>

definition positions :: "Particles \<Rightarrow> py_error + f64 option list \<times> f64 option list" where
  "positions p =
     (case (self_x p, self_y p) of
        (None, None) \<Rightarrow> Inl ValueError
      | (Some xs, None) \<Rightarrow> Inr (map Some xs, replicate (length xs) None)
      | (None, Some ys) \<Rightarrow> Inr (replicate (length ys) None, map Some ys)
      | (Some xs, Some ys) \<Rightarrow>
          if length xs = length ys then Inr (map Some xs, map Some ys) else Inl ValueError)"

subsection \<open>Driving the experiment\<close>

text \<open>\<^verbatim>\<open>diags.append(rows, ignore_index=True)\<close>: concatenate and relabel the rows \<open>0, 1, 2, ...\<close>\<close>

definition append_ignore_index :: "diag_row list \<Rightarrow> diag_row list \<Rightarrow> diag_row list" where
  "append_ignore_index df rows =
     map (\<lambda>(i, r). r\<lparr>d_index := int i\<rparr>) (enumerate 0 (df @ rows))"

text \<open>
  The body of \<^verbatim>\<open>for step in range(1, number_steps)\<close>, run \<open>k\<close> times: move, then append
  the diagnostics.
\<close>

fun walk_loop :: "nat \<Rightarrow> Particles \<Rightarrow> diag_row list \<Rightarrow> py_error + Particles \<times> diag_row list" where
  "walk_loop 0 p diags = Inr (p, diags)"
| "walk_loop (Suc k) p diags =
     (case move p of
        Inl e \<Rightarrow> Inl e
      | Inr p1 \<Rightarrow>
          (case diagnostics p1 of
             Inl e \<Rightarrow> Inl e
           | Inr row \<Rightarrow> walk_loop k p1 (append_ignore_index diags row)))"

record walk_result =
  r_diags :: "diag_row list"
  r_initial_positions :: "f64 option list \<times> f64 option list"
  r_final_positions :: "f64 option list \<times> f64 option list"

text \<open>
  \<^verbatim>\<open>run_random_walk\<close>. Its first argument here is not a parameter of the Python function:
  it is the generator that \<^verbatim>\<open>np.random.RandomState()\<close>, called without a seed, sets up from
  the operating system's entropy. \<^verbatim>\<open>np.ones((number_particles, ))\<close> raises ValueError for a
  negative count; \<^verbatim>\<open>range(1, number_steps)\<close> has \<open>number_steps - 1\<close> elements, none if that
  is not positive.
\<close>

definition run_random_walk ::
  "RandomState \<Rightarrow> f64 \<Rightarrow> f64 \<Rightarrow> int \<Rightarrow> int \<Rightarrow> f64 \<Rightarrow> py_error + walk_result" where
  "run_random_walk entropy len_x len_y number_particles number_steps step_len =
     (let sp = \<lparr>length_x = len_x, length_y = len_y\<rparr>;
          g = entropy
      in if number_particles < 0 then Inl ValueError
         else
           let x0 = replicate (nat number_particles) (fdiv (fmul (Fin 1) len_x) (Fin 2));
               y0 = replicate (nat number_particles) (fdiv (fmul (Fin 1) len_y) (Fin 2))
           in (case Particles_init g sp (Some x0) (Some y0) step_len of
                 Inl e \<Rightarrow> Inl e
               | Inr particles \<Rightarrow>
                   (case positions particles of
                      Inl e \<Rightarrow> Inl e
                    | Inr initial_positions \<Rightarrow>
                        (case diagnostics particles of
                           Inl e \<Rightarrow> Inl e
                         | Inr diags0 \<Rightarrow>
                             (case walk_loop (nat (number_steps - 1)) particles diags0 of
                                Inl e \<Rightarrow> Inl e
                              | Inr (particles1, diags) \<Rightarrow>
                                  (case positions particles1 of
                                     Inl e \<Rightarrow> Inl e
                                   | Inr final_positions \<Rightarrow>
                                       Inr \<lparr>r_diags = diags,
                                            r_initial_positions = initial_positions,
                                            r_final_positions = final_positions\<rparr>))))))"

section \<open>Auxiliary notions for the statements\<close>

text \<open>Both position arrays are present, with \<open>n\<close> and \<open>m\<close> elements.\<close>

definition has_arrays :: "nat \<Rightarrow> nat \<Rightarrow> Particles \<Rightarrow> bool" where
  "has_arrays n m p \<longleftrightarrow>
     (case (self_x p, self_y p) of
        (Some xs, Some ys) \<Rightarrow> length xs = n \<and> length ys = m
      | _ \<Rightarrow> False)"

text \<open>A generator all of whose draws are the same number, for concrete runs.\<close>

definition const_draws :: "rat \<Rightarrow> RandomState" where
  "const_draws c i = c"

text \<open>\<open>k\<close> successive calls of \<open>move\<close>; the first error ends the sequence.\<close>

fun moves :: "nat \<Rightarrow> Particles \<Rightarrow> py_error + Particles" where
  "moves 0 p = Inr p"
| "moves (Suc k) p = (case move p of Inl e \<Rightarrow> Inl e | Inr p1 \<Rightarrow> moves k p1)"

definition is_fin :: "f64 \<Rightarrow> bool" where
  "is_fin v = (case v of Fin r \<Rightarrow> True | _ \<Rightarrow> False)"

text \<open>A finite value that is a binary64 number.\<close>

definition is_double_val :: "f64 \<Rightarrow> bool" where
  "is_double_val v = (case v of Fin r \<Rightarrow> is_double r | _ \<Rightarrow> False)"

text \<open>A finite number in the half-open interval \<open>[0, l)\<close>, and in the closed interval \<open>[0, l]\<close>.\<close>

definition in_half_open :: "rat \<Rightarrow> f64 \<Rightarrow> bool" where
  "in_half_open l v = (case v of Fin r \<Rightarrow> 0 \<le> r \<and> r < l | _ \<Rightarrow> False)"

definition in_closed :: "rat \<Rightarrow> f64 \<Rightarrow> bool" where
  "in_closed l v = (case v of Fin r \<Rightarrow> 0 \<le> r \<and> r \<le> l | _ \<Rightarrow> False)"





section \<open>Properties of binary64 rounding\<close>

lemma pow2_power_int: "pow2 e = power_int 2 e"
  by (simp add: pow2_def power_int_def inverse_eq_divide power_one_over)

lemma pow2_pos: "0 < pow2 e"
  by (simp add: pow2_power_int)

lemma pow2_add: "pow2 (a + b) = pow2 a * pow2 b"
  by (simp add: pow2_power_int power_int_add)

lemma pow2_mono: "a \<le> b \<Longrightarrow> pow2 a \<le> pow2 b"
  by (simp add: pow2_power_int power_int_increasing)

lemma pow2_strict_mono: "a < b \<Longrightarrow> pow2 a < pow2 b"
  by (simp add: pow2_power_int power_int_strict_increasing)

lemma pow2_less_iff: "pow2 a < pow2 b \<longleftrightarrow> a < b"
proof
  assume l: "pow2 a < pow2 b"
  show "a < b"
  proof (rule ccontr)
    assume "\<not> a < b"
    then have "pow2 b \<le> pow2 a" by (simp add: pow2_mono)
    with l show False by simp
  qed
qed (rule pow2_strict_mono)

lemma pow2_nat: "pow2 (int n) = 2 ^ n"
  by (simp add: pow2_def)

lemma pow2_neg_nat: "pow2 (- int n) = 1 / 2 ^ n"
  by (cases n) (simp_all add: pow2_def nat_add_distrib)

lemma pow2_diff: "pow2 a / pow2 b = pow2 (a - b)"
  using pow2_add [of "a - b" b] pow2_pos [of b] by (simp add: field_simps)

lemma ilog2_bounds:
  assumes "0 < x"
  shows "pow2 (ilog2 x) \<le> x \<and> x < pow2 (ilog2 x + 1)"
proof (cases "1 \<le> x")
  case True
  define f where "f = \<lfloor>x\<rfloor>"
  have f1: "1 \<le> f" using True by (simp add: f_def)
  then have fpos: "0 < f" by simp
  from bitlen_bounds [OF fpos]
  have b: "2 ^ nat (bitlen f - 1) \<le> f" "f < 2 ^ nat (bitlen f)" by auto
  have bl: "1 \<le> bitlen f"
    using fpos bitlen_eq_zero_iff [of f] bitlen_nonneg [of f] by linarith
  have e: "ilog2 x = bitlen f - 1" using True by (simp add: ilog2_def f_def)
  have "pow2 (bitlen f - 1) = 2 ^ nat (bitlen f - 1)"
    using bl by (simp add: pow2_def)
  also have "\<dots> = of_int (2 ^ nat (bitlen f - 1))" by simp
  also have "\<dots> \<le> of_int f" using b(1) by (simp only: of_int_le_iff)
  also have "\<dots> \<le> x" by (simp add: f_def)
  finally have lo: "pow2 (ilog2 x) \<le> x" by (simp add: e)
  have "f + 1 \<le> 2 ^ nat (bitlen f)" using b(2) by simp
  then have "of_int (f + 1) \<le> (of_int (2 ^ nat (bitlen f)) :: rat)"
    by (simp only: of_int_le_iff)
  moreover have "x < of_int (f + 1)" using floor_correct [of x] by (simp add: f_def)
  ultimately have "x < 2 ^ nat (bitlen f)" by simp
  moreover have "pow2 (bitlen f - 1 + 1) = 2 ^ nat (bitlen f)"
    using bl by (simp add: pow2_def)
  ultimately have hi: "x < pow2 (ilog2 x + 1)" by (simp add: e)
  show ?thesis using lo hi by simp
next
  case False
  define y where "y = 1 / x"
  define c where "c = \<lceil>y\<rceil> - 1"
  have y1: "1 < y" using False assms by (simp add: y_def)
  then have "of_int 1 < y" by simp
  then have "1 < \<lceil>y\<rceil>" by (simp only: less_ceiling_iff)
  then have cpos: "0 < c" by (simp add: c_def)
  from bitlen_bounds [OF cpos]
  have b: "2 ^ nat (bitlen c - 1) \<le> c" "c < 2 ^ nat (bitlen c)" by auto
  have bl: "1 \<le> bitlen c"
    using cpos bitlen_eq_zero_iff [of c] bitlen_nonneg [of c] by linarith
  have e: "ilog2 x = - bitlen c" using False by (simp add: ilog2_def c_def y_def)
  have "\<lceil>y\<rceil> \<le> 2 ^ nat (bitlen c)" using b(2) by (simp add: c_def)
  then have "y \<le> of_int (2 ^ nat (bitlen c))" by (simp only: ceiling_le_iff)
  then have yhi: "y \<le> 2 ^ nat (bitlen c)" by simp
  have cy: "c < \<lceil>y\<rceil>" by (simp add: c_def)
  have "(2::rat) ^ nat (bitlen c - 1) = of_int (2 ^ nat (bitlen c - 1))" by simp
  also have "\<dots> \<le> of_int c" using b(1) by (simp only: of_int_le_iff)
  also have "\<dots> < y" using cy by (simp only: less_ceiling_iff)
  finally have ylo: "2 ^ nat (bitlen c - 1) < y" .
  have p1: "pow2 (- bitlen c) = 1 / 2 ^ nat (bitlen c)"
    using bl by (simp add: pow2_def)
  have p2: "pow2 (- bitlen c + 1) = 1 / 2 ^ nat (bitlen c - 1)"
    using bl by (auto simp: pow2_def)
  have lo: "pow2 (ilog2 x) \<le> x"
    using yhi assms unfolding e p1 y_def by (simp add: field_simps)
  have hi: "x < pow2 (ilog2 x + 1)"
    using ylo assms unfolding e p2 y_def by (simp add: field_simps)
  show ?thesis using lo hi by simp
qed

lemma ilog2_unique:
  assumes "pow2 e \<le> x" "x < pow2 (e + 1)"
  shows "ilog2 x = e"
proof -
  have xpos: "0 < x" using assms(1) pow2_pos [of e] by simp
  from ilog2_bounds [OF xpos]
  have b: "pow2 (ilog2 x) \<le> x" "x < pow2 (ilog2 x + 1)" by auto
  have "pow2 e < pow2 (ilog2 x + 1)" using assms(1) b(2) by simp
  then have 1: "e < ilog2 x + 1" by (simp only: pow2_less_iff)
  have "pow2 (ilog2 x) < pow2 (e + 1)" using assms(2) b(1) by simp
  then have 2: "ilog2 x < e + 1" by (simp only: pow2_less_iff)
  show ?thesis using 1 2 by simp
qed

lemma ilog2_mono:
  assumes "0 < x" "x \<le> y"
  shows "ilog2 x \<le> ilog2 y"
proof -
  have ypos: "0 < y" using assms by simp
  from ilog2_bounds [OF assms(1)] ilog2_bounds [OF ypos]
  have "pow2 (ilog2 x) < pow2 (ilog2 y + 1)" using assms(2) by simp
  then have "ilog2 x < ilog2 y + 1" by (simp only: pow2_less_iff)
  then show ?thesis by simp
qed

lemma round_even_cases:
  "round_even t = \<lfloor>t\<rfloor> \<or> round_even t = \<lfloor>t\<rfloor> + 1"
  by (simp add: round_even_def Let_def)

lemma round_even_of_int: "round_even (of_int k) = k"
  by (simp add: round_even_def)

lemma round_even_ge: "of_int k \<le> t \<Longrightarrow> k \<le> round_even t"
proof -
  assume "of_int k \<le> t"
  then have "k \<le> \<lfloor>t\<rfloor>" by (simp only: le_floor_iff)
  then show ?thesis using round_even_cases [of t] by auto
qed

lemma round_even_le: "t \<le> of_int k \<Longrightarrow> round_even t \<le> k"
proof -
  assume le: "t \<le> of_int k"
  have fk: "\<lfloor>t\<rfloor> \<le> k" using floor_mono [OF le] by simp
  show ?thesis
  proof (cases "\<lfloor>t\<rfloor> = k")
    case True
    then have "of_int k \<le> t" by (metis of_int_floor_le)
    with le have "t = of_int k" by simp
    then show ?thesis by (simp add: round_even_of_int)
  next
    case False
    with fk have "\<lfloor>t\<rfloor> + 1 \<le> k" by simp
    then show ?thesis using round_even_cases [of t] by auto
  qed
qed

lemma fl64_pos:
  assumes "0 < v"
  shows "fl64 v =
     (let e = max (ilog2 v) (- 1022); q = pow2 (e - 52); r = of_int (round_even (v / q)) * q
      in if pow2 1024 \<le> r then PInf else Fin r)"
  using assms by (simp add: fl64_def Let_def)

lemma fl64_uminus: "fl64 (- v) = fneg (fl64 v)"
  by (cases "v = 0"; cases "0 < v") (auto simp: fl64_def Let_def)

lemma fl64_0: "fl64 0 = Fin 0"
  by (simp add: fl64_def)

lemma fl64_double: "is_double v \<Longrightarrow> fl64 v = Fin v"
  by (simp add: is_double_def)

text \<open>Rounding never carries a positive number past a binary64 number above it.\<close>

lemma fl64_le_double:
  assumes z: "0 < z" and zb: "z \<le> b" and b: "is_double b"
  shows "\<exists>r. fl64 z = Fin r \<and> 0 \<le> r \<and> r \<le> b"
proof -
  have bpos: "0 < b" using z zb by simp
  define eb where "eb = max (ilog2 b) (- 1022)"
  define qb where "qb = pow2 (eb - 52)"
  define nb where "nb = round_even (b / qb)"
  define ez where "ez = max (ilog2 z) (- 1022)"
  define qz where "qz = pow2 (ez - 52)"
  define nz where "nz = round_even (z / qz)"
  have qbpos: "0 < qb" and qzpos: "0 < qz" by (simp_all add: qb_def qz_def pow2_pos)
  have fb: "fl64 b = (if pow2 1024 \<le> of_int nb * qb then PInf else Fin (of_int nb * qb))"
    using fl64_pos [OF bpos] by (simp add: Let_def eb_def qb_def nb_def)
  have fz: "fl64 z = (if pow2 1024 \<le> of_int nz * qz then PInf else Fin (of_int nz * qz))"
    using fl64_pos [OF z] by (simp add: Let_def ez_def qz_def nz_def)
  from b have "fl64 b = Fin b" by (simp add: is_double_def)
  with fb have bno: "\<not> pow2 1024 \<le> of_int nb * qb" and beq: "of_int nb * qb = b"
    by (auto split: if_splits)
  have nz0: "0 \<le> nz"
    unfolding nz_def using z qzpos by (intro round_even_ge) simp
  have le: "ez \<le> eb"
    unfolding ez_def eb_def using ilog2_mono [OF z zb] by simp
  have rb: "of_int nz * qz \<le> b"
  proof (cases "ez = eb")
    case True
    then have q: "qz = qb" by (simp add: qz_def qb_def)
    have "z / qb \<le> b / qb" using zb qbpos by (simp add: divide_right_mono)
    also have "b / qb = of_int nb" using beq qbpos by (simp add: field_simps)
    finally have "nz \<le> nb" unfolding nz_def q by (rule round_even_le)
    then have "(of_int nz :: rat) \<le> of_int nb" by (simp only: of_int_le_iff)
    then have "of_int nz * qb \<le> of_int nb * qb"
      using qbpos by (simp add: mult_right_mono)
    then show ?thesis using beq q by simp
  next
    case False
    with le have lt: "ez < eb" by simp
    then have ebl: "eb = ilog2 b" by (auto simp: eb_def ez_def max_def split: if_splits)
    have "z < pow2 (ilog2 z + 1)" using ilog2_bounds [OF z] by simp
    also have "\<dots> \<le> pow2 (ez + 1)" by (rule pow2_mono) (simp add: ez_def)
    finally have "z / qz < pow2 (ez + 1) / qz"
      using qzpos by (simp add: divide_strict_right_mono)
    also have "pow2 (ez + 1) / qz = pow2 53"
      unfolding qz_def pow2_diff by simp
    also have "pow2 53 = of_int (2 ^ 53)"
      using pow2_nat [of 53] by simp
    finally have "z / qz \<le> of_int (2 ^ 53)" by simp
    then have "nz \<le> 2 ^ 53" unfolding nz_def by (rule round_even_le)
    then have "(of_int nz :: rat) \<le> of_int (2 ^ 53)" by (simp only: of_int_le_iff)
    then have "of_int nz * qz \<le> of_int (2 ^ 53) * qz"
      using qzpos by (simp add: mult_right_mono)
    also have "of_int (2 ^ 53) * qz = pow2 53 * pow2 (ez - 52)"
      using pow2_nat [of 53] by (simp add: qz_def)
    also have "\<dots> = pow2 (ez + 1)"
      using pow2_add [of 53 "ez - 52"] by (simp add: add.commute)
    also have "\<dots> \<le> pow2 eb" using lt by (intro pow2_mono) simp
    also have "\<dots> \<le> b" unfolding ebl using ilog2_bounds [OF bpos] by simp
    finally show ?thesis .
  qed
  have "\<not> pow2 1024 \<le> of_int nz * qz" using rb bno beq by simp
  with fz have "fl64 z = Fin (of_int nz * qz)" by simp
  moreover have "0 \<le> of_int nz * qz" using nz0 qzpos by simp
  ultimately show ?thesis using rb by blast
qed

lemma round_scaled_le:
  assumes "0 < v" "v < pow2 (e + 1)"
  shows "of_int (round_even (v / pow2 (e - 52))) * pow2 (e - 52) \<le> pow2 (e + 1)"
proof -
  define q where "q = pow2 (e - 52)"
  have qpos: "0 < q" by (simp add: q_def pow2_pos)
  have "v / q < pow2 (e + 1) / q"
    using assms(2) qpos by (simp add: divide_strict_right_mono)
  also have "pow2 (e + 1) / q = pow2 53"
    unfolding q_def pow2_diff by simp
  also have "pow2 53 = of_int (2 ^ 53)"
    using pow2_nat [of 53] by simp
  finally have "v / q \<le> of_int (2 ^ 53)" by simp
  then have "round_even (v / q) \<le> 2 ^ 53" by (rule round_even_le)
  then have "(of_int (round_even (v / q)) :: rat) \<le> of_int (2 ^ 53)"
    by (simp only: of_int_le_iff)
  then have "of_int (round_even (v / q)) * q \<le> of_int (2 ^ 53) * q"
    using qpos by (simp add: mult_right_mono)
  also have "of_int (2 ^ 53) * q = pow2 53 * pow2 (e - 52)"
    using pow2_nat [of 53] by (simp add: q_def)
  also have "\<dots> = pow2 (e + 1)"
    using pow2_add [of 53 "e - 52"] by (simp add: add.commute)
  finally show ?thesis by (simp add: q_def)
qed

text \<open>A number within the normal range is rounded at the spacing of its binade.\<close>

lemma fl64_normal:
  assumes "pow2 e \<le> v" "v < pow2 (e + 1)" "- 1022 \<le> e" "e \<le> 1022"
  shows "fl64 v = Fin (of_int (round_even (v / pow2 (e - 52))) * pow2 (e - 52))"
proof -
  have vpos: "0 < v" using assms(1) pow2_pos [of e] by simp
  have il: "ilog2 v = e" using assms(1,2) by (rule ilog2_unique)
  have "of_int (round_even (v / pow2 (e - 52))) * pow2 (e - 52) \<le> pow2 (e + 1)"
    using vpos assms(2) by (rule round_scaled_le)
  also have "\<dots> < pow2 1024" using assms(4) by (intro pow2_strict_mono) simp
  finally have "\<not> pow2 1024 \<le> of_int (round_even (v / pow2 (e - 52))) * pow2 (e - 52)"
    by simp
  then show ?thesis
    using fl64_pos [OF vpos] assms(3) by (simp add: Let_def il max_def)
qed

lemma fl64_overflow:
  assumes "pow2 1024 \<le> v"
  shows "fl64 v = PInf"
proof -
  have vpos: "0 < v" using assms pow2_pos [of 1024] by simp
  define e where "e = ilog2 v"
  have "ilog2 (pow2 1024) = 1024"
    by (rule ilog2_unique) (simp_all add: pow2_strict_mono)
  then have e1024: "1024 \<le> e"
    using ilog2_mono [OF pow2_pos assms] by (simp add: e_def)
  define q where "q = pow2 (e - 52)"
  have qpos: "0 < q" by (simp add: q_def pow2_pos)
  have "pow2 e / q \<le> v / q"
    using ilog2_bounds [OF vpos] qpos by (simp add: e_def divide_right_mono)
  moreover have "pow2 e / q = of_int (2 ^ 52)"
    unfolding q_def pow2_diff using pow2_nat [of 52] by simp
  ultimately have "2 ^ 52 \<le> round_even (v / q)"
    by (intro round_even_ge) simp
  then have "(of_int (2 ^ 52) :: rat) \<le> of_int (round_even (v / q))"
    by (simp only: of_int_le_iff)
  then have "of_int (2 ^ 52) * q \<le> of_int (round_even (v / q)) * q"
    using qpos by (simp add: mult_right_mono)
  moreover have "of_int (2 ^ 52) * q = pow2 e"
    using pow2_add [of 52 "e - 52"] pow2_nat [of 52] by (simp add: q_def)
  moreover have "pow2 1024 \<le> pow2 e" using e1024 by (rule pow2_mono)
  ultimately have "pow2 1024 \<le> of_int (round_even (v / q)) * q" by simp
  then show ?thesis
    using fl64_pos [OF vpos] e1024 by (simp add: Let_def e_def q_def max_def)
qed

text \<open>Every integer multiple \<open>m * 2 ^ e\<close> with \<open>\<bar>m\<bar> < 2 ^ 53\<close> and \<open>-1074 \<le> e \<le> 971\<close> is a binary64 number.\<close>

lemma is_double_dyadic_pos:
  assumes m0: "0 < m" and m: "m < 2 ^ 53" and e: "- 1074 \<le> e" "e \<le> 971"
  shows "is_double (of_int m * pow2 e)"
proof -
  define v where "v = (of_int m :: rat) * pow2 e"
  define bl where "bl = bitlen m"
  have vpos: "0 < v" using m0 pow2_pos [of e] by (simp add: v_def)
  have bl1: "1 \<le> bl"
    using m0 bitlen_eq_zero_iff [of m] bitlen_nonneg [of m] unfolding bl_def by linarith
  have bl53: "bl \<le> 53"
    using m bitlen_le_iff_power [of m 53] by (simp add: bl_def)
  from bitlen_bounds [OF m0]
  have b: "2 ^ nat (bl - 1) \<le> m" "m < 2 ^ nat bl" by (auto simp: bl_def)
  have lo: "pow2 (bl - 1 + e) \<le> v"
  proof -
    have "pow2 (bl - 1 + e) = pow2 (bl - 1) * pow2 e" by (rule pow2_add)
    also have "pow2 (bl - 1) = of_int (2 ^ nat (bl - 1))"
      using bl1 by (simp add: pow2_def)
    also have "\<dots> \<le> of_int m" using b(1) by (simp only: of_int_le_iff)
    finally show ?thesis using pow2_pos [of e] by (simp add: v_def mult_right_mono)
  qed
  have hi: "v < pow2 (bl - 1 + e + 1)"
  proof -
    have "(of_int m :: rat) < of_int (2 ^ nat bl)" using b(2) by (simp only: of_int_less_iff)
    also have "\<dots> = pow2 bl" using bl1 by (simp add: pow2_def)
    finally have "v < pow2 bl * pow2 e" using pow2_pos [of e] by (simp add: v_def)
    then show ?thesis using pow2_add [of bl e] by simp
  qed
  have il: "ilog2 v = bl - 1 + e" using lo hi by (rule ilog2_unique)
  define ev where "ev = max (bl - 1 + e) (- 1022)"
  define k where "k = e + 52 - ev"
  have k0: "0 \<le> k" using bl53 e(1) by (simp add: k_def ev_def max_def)
  define q where "q = pow2 (ev - 52)"
  have qpos: "0 < q" by (simp add: q_def pow2_pos)
  have eq: "pow2 e = pow2 k * q"
    using pow2_add [of k "ev - 52"] by (simp add: k_def q_def)
  have pk: "pow2 k = of_int (2 ^ nat k)" using k0 by (simp add: pow2_def)
  have "v / q = of_int (m * 2 ^ nat k)"
    using qpos by (simp add: v_def eq pk)
  then have rn: "round_even (v / q) = m * 2 ^ nat k" by (simp only: round_even_of_int)
  have r: "of_int (round_even (v / q)) * q = v"
    unfolding rn by (simp add: v_def eq pk)
  have "(of_int m :: rat) < of_int (2 ^ 53)" using m by (simp only: of_int_less_iff)
  also have "\<dots> = pow2 53" using pow2_nat [of 53] by simp
  finally have "v < pow2 53 * pow2 e" using pow2_pos [of e] by (simp add: v_def)
  also have "\<dots> = pow2 (53 + e)" by (simp add: pow2_add)
  also have "\<dots> \<le> pow2 1024" using e(2) by (intro pow2_mono) simp
  finally have "\<not> pow2 1024 \<le> v" by simp
  then have "fl64 v = Fin v"
    using fl64_pos [OF vpos] r by (simp add: Let_def il ev_def q_def)
  then show ?thesis by (simp add: is_double_def v_def)
qed

lemma is_double_0: "is_double 0"
  by (simp add: is_double_def fl64_def)

lemma is_double_uminus: "is_double v \<Longrightarrow> is_double (- v)"
  by (simp add: is_double_def fl64_uminus)

lemma is_double_dyadic:
  assumes "\<bar>m\<bar> < 2 ^ 53" "- 1074 \<le> e" "e \<le> 971"
  shows "is_double (of_int m * pow2 e)"
proof -
  consider "m = 0" | "0 < m" | "m < 0" by linarith
  then show ?thesis
  proof cases
    case 1
    then show ?thesis by (simp add: is_double_0)
  next
    case 2
    then show ?thesis using assms by (intro is_double_dyadic_pos) simp_all
  next
    case 3
    then have "is_double (of_int (- m) * pow2 e)"
      using assms by (intro is_double_dyadic_pos) simp_all
    then have "is_double (- (of_int (- m) * pow2 e))" by (rule is_double_uminus)
    then show ?thesis by simp
  qed
qed

lemma is_double_of_int: "\<bar>m\<bar> < 2 ^ 53 \<Longrightarrow> is_double (of_int m)"
  using is_double_dyadic [of m 0] by (simp add: pow2_def)

lemma is_double_div_pow2:
  "\<bar>m\<bar> < 2 ^ 53 \<Longrightarrow> n \<le> 1074 \<Longrightarrow> is_double (of_int m / 2 ^ n)"
  using is_double_dyadic [of m "- int n"] by (simp add: pow2_neg_nat)

lemma is_double_bound: "is_double v \<Longrightarrow> \<bar>v\<bar> < pow2 1024"
proof -
  assume d: "is_double v"
  have pos: "v < pow2 1024" if "is_double v" for v
  proof (rule ccontr)
    assume "\<not> v < pow2 1024"
    then have "fl64 v = PInf" by (intro fl64_overflow) simp
    with that show False by (simp add: is_double_def)
  qed
  show ?thesis
  proof (cases "0 \<le> v")
    case True
    then show ?thesis using pos [OF d] by simp
  next
    case False
    then show ?thesis using pos [OF is_double_uminus [OF d]] by simp
  qed
qed

lemma floor_numeral_div:
  "\<lfloor>(numeral a :: rat) / numeral b\<rfloor> = numeral a div numeral b"
  using floor_divide_of_int_eq [of "numeral a" "numeral b", where ?'a = rat] by simp

lemma c_fmod_nonneg:
  assumes "0 \<le> a" "0 < b"
  shows "0 \<le> c_fmod a b \<and> c_fmod a b < b"
proof -
  have q: "0 \<le> a / b" using assms by simp
  have m: "c_fmod a b = a - b * of_int \<lfloor>a / b\<rfloor>"
    using q by (simp add: c_fmod_def Let_def)
  have "of_int \<lfloor>a / b\<rfloor> \<le> a / b" "a / b < of_int \<lfloor>a / b\<rfloor> + 1"
    using floor_correct [of "a / b"] by simp_all
  then have "of_int \<lfloor>a / b\<rfloor> * b \<le> a" "a < (of_int \<lfloor>a / b\<rfloor> + 1) * b"
    using assms(2) by (simp_all only: pos_le_divide_eq pos_divide_less_eq)
  then show ?thesis unfolding m by (simp add: algebra_simps)
qed

lemma c_fmod_neg:
  assumes "a < 0" "0 < b"
  shows "- b < c_fmod a b \<and> c_fmod a b \<le> 0"
proof -
  have q: "\<not> 0 \<le> a / b" using divide_neg_pos [OF assms] by simp
  have m: "c_fmod a b = a - b * of_int \<lceil>a / b\<rceil>"
    using q by (simp add: c_fmod_def Let_def)
  have "a / b \<le> of_int \<lceil>a / b\<rceil>" "of_int \<lceil>a / b\<rceil> - 1 < a / b"
    using ceiling_correct [of "a / b"] by simp_all
  then have "a \<le> of_int \<lceil>a / b\<rceil> * b" "(of_int \<lceil>a / b\<rceil> - 1) * b < a"
    using assms(2) by (simp_all only: pos_divide_le_eq pos_less_divide_eq)
  then show ?thesis unfolding m by (simp add: algebra_simps)
qed

lemma c_fmod_small:
  assumes "0 \<le> a" "a < b"
  shows "c_fmod a b = a"
proof -
  have "0 \<le> a / b" "a / b < 1" using assms by simp_all
  then have "\<lfloor>a / b\<rfloor> = 0" by (simp add: floor_eq_iff)
  then show ?thesis using assms by (simp add: c_fmod_def Let_def)
qed

lemma c_fmod_small_neg:
  assumes "a < 0" "- b < a"
  shows "c_fmod a b = a"
proof -
  have b: "0 < b" using assms by simp
  have "a / b < 0" "- 1 < a / b" using assms b by (simp_all add: field_simps)
  then have "\<lceil>a / b\<rceil> = 0" by (simp add: ceiling_eq_iff)
  then show ?thesis using \<open>a / b < 0\<close> by (simp add: c_fmod_def Let_def)
qed

text \<open>The range of \<open>np_mod\<close> for a positive binary64 divisor: closed at the divisor.\<close>

lemma np_mod_range:
  assumes "is_double b" "0 < b"
  shows "\<exists>r. np_mod (Fin a) (Fin b) = Fin r \<and> 0 \<le> r \<and> r \<le> b \<and> (0 \<le> a \<longrightarrow> r < b)"
proof (cases "0 \<le> a")
  case True
  from c_fmod_nonneg [OF True assms(2)]
  show ?thesis using assms(2) True by (simp add: Let_def)
next
  case False
  then have a: "a < 0" by simp
  define m where "m = c_fmod a b"
  from c_fmod_neg [OF a assms(2)] have m: "- b < m" "m \<le> 0" by (simp_all add: m_def)
  show ?thesis
  proof (cases "m = 0")
    case True
    then show ?thesis using assms(2) a by (simp add: Let_def flip: m_def)
  next
    case False
    with m have "0 < m + b" "m + b \<le> b" by simp_all
    from fl64_le_double [OF this assms(1)] obtain r where
      "fl64 (m + b) = Fin r" "0 \<le> r" "r \<le> b" by blast
    then show ?thesis using assms(2) a m False by (simp add: Let_def flip: m_def)
  qed
qed

lemma np_mod_id:
  assumes "0 \<le> a" "a < b"
  shows "np_mod (Fin a) (Fin b) = Fin a"
  using assms c_fmod_small [OF assms] by (simp add: Let_def)

lemma np_mod_zero: "0 < l \<Longrightarrow> np_mod (Fin 0) (Fin l) = Fin 0"
  by (simp add: np_mod_id del: np_mod.simps)

lemma is_fin_iff: "is_fin v \<longleftrightarrow> (\<exists>a. v = Fin a)"
  by (cases v) (simp_all add: is_fin_def)

lemma is_double_val_iff: "is_double_val v \<longleftrightarrow> (\<exists>a. v = Fin a \<and> is_double a)"
  by (cases v) (simp_all add: is_double_val_def)

lemma in_closed_iff: "in_closed l v \<longleftrightarrow> (\<exists>r. v = Fin r \<and> 0 \<le> r \<and> r \<le> l)"
  by (cases v) (simp_all add: in_closed_def)

lemma in_half_open_iff: "in_half_open l v \<longleftrightarrow> (\<exists>r. v = Fin r \<and> 0 \<le> r \<and> r < l)"
  by (cases v) (simp_all add: in_half_open_def)

lemma np_mod_Fin_wrap:
  assumes "is_double l" "0 < l"
  shows "in_closed l (np_mod (Fin a) (Fin l)) \<and> (0 \<le> a \<longrightarrow> in_half_open l (np_mod (Fin a) (Fin l)))"
  using np_mod_range [OF assms, of a] by (auto simp: in_closed_iff in_half_open_iff)


subsection \<open>Particular binary64 numbers\<close>

lemma fl64_numeral:
  "(numeral k :: int) < 2 ^ 53 \<Longrightarrow> fl64 (numeral k) = Fin (numeral k)"
  using is_double_of_int [of "numeral k"] by (simp add: is_double_def)

lemma fl64_1: "fl64 1 = Fin 1"
  using is_double_of_int [of 1] by (simp add: is_double_def)

lemma fl64_numeral_half:
  "(numeral k :: int) < 2 ^ 53 \<Longrightarrow> fl64 (numeral k / 2) = Fin (numeral k / 2)"
  using is_double_div_pow2 [of "numeral k" 1] by (simp add: is_double_def)

lemma fl64_half: "fl64 (1 / 2) = Fin (1 / 2)"
  using is_double_div_pow2 [of 1 1] by (simp add: is_double_def)

lemmas fl64_small = fl64_0 fl64_1 fl64_numeral fl64_numeral_half fl64_half fl64_uminus

lemma is_double_numeral: "(numeral k :: int) < 2 ^ 53 \<Longrightarrow> is_double (numeral k)"
  by (simp add: is_double_def fl64_numeral)

lemma is_double_1: "is_double 1"
  by (simp add: is_double_def fl64_1)

lemma is_double_half: "is_double (1 / 2)"
  by (simp add: is_double_def fl64_half)

lemmas is_double_small = is_double_0 is_double_1 is_double_numeral is_double_half

lemma rounded_tenth: "fl64 (1 / 10) = Fin (3602879701896397 / 36028797018963968)"
  using fl64_normal [of "- 4" "1 / 10"]
  by (simp add: round_even_def Let_def floor_numeral_div pow2_def)

lemma rounded_99_tenths: "fl64 (99 / 10) = Fin (5573204538870989 / 562949953421312)"
  using fl64_normal [of 3 "99 / 10"]
  by (simp add: round_even_def Let_def floor_numeral_div pow2_def)

lemma rounded_10_minus_tenth:
  "fl64 (10 - 3602879701896397 / 36028797018963968) = Fin (5573204538870989 / 562949953421312)"
  using fl64_normal [of 3 "10 - 3602879701896397 / 36028797018963968"]
  by (simp add: round_even_def Let_def floor_numeral_div pow2_def)

lemma np_mod_minus_tenth: "np_mod (fl64 (- (1 / 10))) (Fin 10) = fl64 (99 / 10)"
proof -
  have m: "c_fmod (- (3602879701896397 / 36028797018963968)) 10
           = - (3602879701896397 / 36028797018963968)"
    by (rule c_fmod_small_neg) simp_all
  have "- (3602879701896397 / 36028797018963968) + 10
        = (10 - 3602879701896397 / 36028797018963968 :: rat)" by simp
  then have "fl64 (- (3602879701896397 / 36028797018963968) + 10)
        = Fin (5573204538870989 / 562949953421312)"
    by (simp only: rounded_10_minus_tenth)
  then show ?thesis
    unfolding fl64_uminus rounded_tenth rounded_99_tenths fneg.simps np_mod.simps m Let_def
    by simp
qed

lemma rounded_below_10: "fl64 (10 - 1 / 2 ^ 60) = Fin 10"
  using fl64_normal [of 3 "10 - 1 / 2 ^ 60"]
  by (simp add: round_even_def Let_def floor_numeral_div pow2_def)


lemma is_double_tiny: "is_double (- (1 / 2 ^ 60))"
  using is_double_div_pow2 [of "- 1" 60] by simp

lemma np_mod_tiny_10: "np_mod (Fin (- (1 / 2 ^ 60))) (Fin 10) = Fin 10"
proof -
  have m: "c_fmod (- (1 / 2 ^ 60)) 10 = - (1 / 2 ^ 60)"
    by (rule c_fmod_small_neg) simp_all
  have "fl64 (- (1 / 2 ^ 60) + 10) = Fin 10"
    using rounded_below_10 by (simp add: add.commute)
  then show ?thesis unfolding np_mod.simps m Let_def by simp
qed





section \<open>Shapes of the arrays and of the frames\<close>

lemma has_arrays_iff:
  "has_arrays n m p \<longleftrightarrow> (\<exists>xs ys. self_x p = Some xs \<and> self_y p = Some ys \<and> length xs = n \<and> length ys = m)"
  by (auto simp: has_arrays_def split: option.splits)

lemma length_normal: "length (fst (normal g n)) = n"
  by (simp add: normal_def)

lemma length_displace: "length ds = length vs \<Longrightarrow> length (displace sl vs ds) = length vs"
  by (simp add: displace_def)

lemma normal_is_fin: "v \<in> set (fst (normal g n)) \<Longrightarrow> is_fin v"
  by (auto simp: normal_def is_fin_def)

lemma const_draws_shift: "(\<lambda>i. const_draws c (n + i)) = const_draws c"
  by (rule ext) (simp add: const_draws_def)

lemma normal_const_draws:
  "normal (const_draws c) n = (replicate n (Fin c), const_draws c)"
  by (simp add: normal_def const_draws_shift) (simp add: const_draws_def map_replicate_const)

lemma displace_nth:
  "length ds = length vs \<Longrightarrow> i < length vs \<Longrightarrow> displace sl vs ds ! i = fadd (vs ! i) (fmul sl (ds ! i))"
  by (simp add: displace_def)

lemma move_arrays:
  assumes "has_arrays n m p"
  shows "\<exists>p1. move p = Inr p1 \<and> has_arrays n m p1 \<and> steps_done p1 = steps_done p + 1
          \<and> space p1 = space p \<and> step_length p1 = step_length p"
  using assms
  by (auto simp: has_arrays_iff move_def normal_def displace_def normalize_positions_def Let_def)




lemma diagnostics_arrays:
  assumes "has_arrays n m p"
  shows "\<exists>r. diagnostics p = Inr [r] \<and> d_index r = steps_done p"
  using assms
  by (auto simp: has_arrays_iff diagnostics_def center_of_mass_def moment_of_inertia_def)




lemma init_arrays:
  "Particles_init g sp (Some xs) (Some ys) sl = Inr p \<Longrightarrow> has_arrays (length xs) (length ys) p"
  by (auto simp: Particles_init_def has_arrays_def)


lemmas run_eval = run_random_walk_def Particles_init_def positions_def diagnostics_def
  center_of_mass_def moment_of_inertia_def np_mean_def np_var_def np_sum_def fsub_def
  move_def normalize_positions_def displace_def normal_const_draws append_ignore_index_def
  fl64_small np_mod_id Let_def

section \<open>The claims of the specification\<close>

subsection \<open>Normalizing positions\<close>

text \<open>
  Counterexample to claim C1: the input \<open>-2\<^sup>-\<^sup>6\<^sup>0\<close> is a finite binary64 number, and on the
  \<open>10 \<times> 20\<close> domain it is normalized to \<open>10\<close>, the extent itself, not to a value below it.
\<close>

theorem normalize_positions_reaches_extent:
  "is_double (- (1 / 2 ^ 60))
   \<and> normalize_positions \<lparr>length_x = Fin 10, length_y = Fin 20\<rparr> [Fin (- (1 / 2 ^ 60))] [Fin 0]
       = ([Fin 10], [Fin 0])"
  using is_double_tiny np_mod_tiny_10
  by (simp add: normalize_positions_def np_mod_zero del: np_mod.simps)

text \<open>
  Claim C1, amended. For finite inputs and finite positive extents (binary64 numbers),
  \<open>normalize_positions\<close> returns arrays of the lengths of its arguments whose elements are
  finite and lie in the closed intervals \<open>[0, length_x]\<close> and \<open>[0, length_y]\<close>; for a
  non-negative input the result is strictly below the extent. The literal inputs \<open>-0.1\<close> and
  \<open>0.0\<close> on the \<open>10 \<times> 20\<close> domain give \<open>9.9\<close> and \<open>0.0\<close> (the float64 values of these
  literals).
\<close>

theorem normalize_positions_range:
  assumes "length_x sp = Fin lx" and "length_y sp = Fin ly"
    and "is_double lx" and "is_double ly" and "0 < lx" and "0 < ly"
  shows "(\<exists>xn yn. normalize_positions sp (map Fin as) (map Fin bs) = (xn, yn)
            \<and> length xn = length as \<and> length yn = length bs
            \<and> (\<forall>i<length as. in_closed lx (xn ! i) \<and> (0 \<le> as ! i \<longrightarrow> in_half_open lx (xn ! i)))
            \<and> (\<forall>i<length bs. in_closed ly (yn ! i) \<and> (0 \<le> bs ! i \<longrightarrow> in_half_open ly (yn ! i))))
         \<and> normalize_positions \<lparr>length_x = Fin 10, length_y = Fin 20\<rparr> [fl64 (- (1 / 10))] [fl64 0]
             = ([fl64 (99 / 10)], [fl64 0])"
proof
  show "\<exists>xn yn. normalize_positions sp (map Fin as) (map Fin bs) = (xn, yn)
            \<and> length xn = length as \<and> length yn = length bs
            \<and> (\<forall>i<length as. in_closed lx (xn ! i) \<and> (0 \<le> as ! i \<longrightarrow> in_half_open lx (xn ! i)))
            \<and> (\<forall>i<length bs. in_closed ly (yn ! i) \<and> (0 \<le> bs ! i \<longrightarrow> in_half_open ly (yn ! i)))"
    using assms(1,2) np_mod_Fin_wrap [OF assms(3,5)] np_mod_Fin_wrap [OF assms(4,6)]
    by (simp add: normalize_positions_def del: np_mod.simps)
  show "normalize_positions \<lparr>length_x = Fin 10, length_y = Fin 20\<rparr> [fl64 (- (1 / 10))] [fl64 0]
             = ([fl64 (99 / 10)], [fl64 0])"
    by (simp add: normalize_positions_def np_mod_minus_tenth fl64_0 np_mod_zero del: np_mod.simps)
qed

theorem normalize_positions_range_witness:
  "is_double 10 \<and> is_double 20
   \<and> (\<exists>x0 x1 y0. normalize_positions \<lparr>length_x = Fin 10, length_y = Fin 20\<rparr>
                     [Fin (- (1 / 2 ^ 60)), Fin 25] [Fin (- 3)] = ([x0, x1], [y0])
            \<and> in_closed 10 x0 \<and> in_closed 10 x1 \<and> in_half_open 10 x1 \<and> in_closed 20 y0)"
proof -
  have d: "is_double 10" "is_double 20" by (simp_all add: is_double_small)
  have s: "length_x \<lparr>length_x = Fin 10, length_y = Fin 20\<rparr> = Fin 10"
    "length_y \<lparr>length_x = Fin 10, length_y = Fin 20\<rparr> = Fin 20" by simp_all
  have p: "(0::rat) < 10" "(0::rat) < 20" by simp_all
  from normalize_positions_range [OF s d p, of "[- (1 / 2 ^ 60), 25]" "[- 3]"]
  obtain xn yn where
    n: "normalize_positions \<lparr>length_x = Fin 10, length_y = Fin 20\<rparr>
          (map Fin [- (1 / 2 ^ 60), 25]) (map Fin [- 3]) = (xn, yn)"
    and x: "\<forall>i<length [- (1 / 2 ^ 60), 25 :: rat].
              in_closed 10 (xn ! i)
              \<and> (0 \<le> [- (1 / 2 ^ 60), 25 :: rat] ! i \<longrightarrow> in_half_open 10 (xn ! i))"
    and y: "\<forall>i<length [- 3 :: rat].
              in_closed 20 (yn ! i) \<and> (0 \<le> [- 3 :: rat] ! i \<longrightarrow> in_half_open 20 (yn ! i))"
    by blast
  from n obtain x0 x1 y0 where l: "xn = [x0, x1]" "yn = [y0]"
    by (auto simp: normalize_positions_def simp del: np_mod.simps)
  from x [rule_format, of 0] x [rule_format, of 1] y [rule_format, of 0]
  have "in_closed 10 x0" "in_closed 10 x1" "in_half_open 10 x1" "in_closed 20 y0"
    by (simp_all add: l)
  then show ?thesis using d n l by simp
qed

subsection \<open>Moving the particles\<close>




subsection \<open>Validation of the run parameters\<close>




subsection \<open>Constructing the ensemble\<close>

text \<open>
  Counterexample to claim C4: constructing the ensemble from one \<open>x\<close> position and two \<open>y\<close>
  positions raises nothing; it returns the object holding exactly these arrays.
\<close>

theorem init_accepts_unequal_lengths:
  "Particles_init (const_draws 0) \<lparr>length_x = Fin 10, length_y = Fin 20\<rparr>
      (Some [Fin 1]) (Some [Fin 1, Fin 2]) (Fin (1 / 2))
   = Inr \<lparr>rng = const_draws 0, space = \<lparr>length_x = Fin 10, length_y = Fin 20\<rparr>,
          self_x = Some [Fin 1], self_y = Some [Fin 1, Fin 2],
          step_length = Fin (1 / 2), steps_done = 0\<rparr>"
  by (simp add: Particles_init_def)

text \<open>
  Claim C4, amended. The constructor never raises: it stores the arrays it is given, whatever
  their lengths (it takes no particle count to compare them with). On the object so built
  \<open>move\<close> and \<open>diagnostics\<close> succeed as well; arrays of unequal length are rejected only
  later and only by \<open>positions\<close>, with the ValueError of the data frame constructor.
\<close>

theorem init_never_raises:
  "\<exists>p. Particles_init g sp (Some xs) (Some ys) sl = Inr p
       \<and> self_x p = Some xs \<and> self_y p = Some ys \<and> steps_done p = 0
       \<and> \<not> isl (move p) \<and> \<not> isl (diagnostics p)
       \<and> (positions p = Inl ValueError \<longleftrightarrow> length xs \<noteq> length ys)"
proof -
  define p where "p = \<lparr>rng = g, space = sp, self_x = Some xs, self_y = Some ys,
                       step_length = sl, steps_done = 0\<rparr>"
  have i: "Particles_init g sp (Some xs) (Some ys) sl = Inr p"
    by (simp add: Particles_init_def p_def)
  have a: "has_arrays (length xs) (length ys) p"
    by (rule init_arrays [OF i])
  have m: "\<not> isl (move p)"
    using move_arrays [OF a] by auto
  have d: "\<not> isl (diagnostics p)"
    using diagnostics_arrays [OF a] by auto
  have q: "positions p = Inl ValueError \<longleftrightarrow> length xs \<noteq> length ys"
    by (simp add: positions_def p_def)
  show ?thesis
    using i m d q by (intro exI [of _ p]) (simp add: p_def)
qed

theorem init_never_raises_witness:
  "\<exists>p. Particles_init (const_draws 0) \<lparr>length_x = Fin 10, length_y = Fin 20\<rparr>
          (Some [Fin 1]) (Some [Fin 1, Fin 2]) (Fin (1 / 2)) = Inr p
       \<and> self_x p = Some [Fin 1] \<and> self_y p = Some [Fin 1, Fin 2] \<and> steps_done p = 0
       \<and> \<not> isl (move p) \<and> \<not> isl (diagnostics p)
       \<and> positions p = Inl ValueError"
  using init_never_raises [of "const_draws 0" "\<lparr>length_x = Fin 10, length_y = Fin 20\<rparr>"
      "[Fin 1]" "[Fin 1, Fin 2]" "Fin (1 / 2)"]
  by simp

subsection \<open>The diagnostics frame\<close>



subsection \<open>Reproducibility of a run\<close>

text \<open>
  Claim C6 on the code: \<open>run_random_walk\<close> takes no seed and builds its generator unseeded,
  so the result of a call is not determined by its parameters. The same parameters with two
  generators give different final positions.
\<close>

theorem run_depends_on_unseeded_generator:
  "map_sum id r_final_positions
     (run_random_walk (const_draws 0) (Fin 10) (Fin 20) 1 2 (Fin (1 / 2)))
   = Inr ([Some (Fin 5)], [Some (Fin 10)])
   \<and> map_sum id r_final_positions
     (run_random_walk (const_draws 1) (Fin 10) (Fin 20) 1 2 (Fin (1 / 2)))
   = Inr ([Some (Fin (11 / 2))], [Some (Fin (21 / 2))])"
  by (simp add: run_eval del: np_mod.simps)

subsection \<open>The moment of inertia\<close>





subsection \<open>Moving with step length zero\<close>

lemma displace_zero:
  assumes "length ds = length vs" "\<forall>v\<in>set vs. is_double_val v" "\<forall>d\<in>set ds. is_fin d"
  shows "displace (Fin 0) vs ds = vs"
proof (rule nth_equalityI)
  show "length (displace (Fin 0) vs ds) = length vs"
    using assms(1) by (simp add: displace_def)
next
  fix i assume "i < length (displace (Fin 0) vs ds)"
  then have i: "i < length vs" using assms(1) by (simp add: displace_def)
  then have "is_double_val (vs ! i)" using assms(2) by simp
  then obtain a where a: "vs ! i = Fin a" "is_double a"
    by (auto simp: is_double_val_iff)
  have "is_fin (ds ! i)" using i assms(1,3) by simp
  then obtain d where d: "ds ! i = Fin d"
    by (auto simp: is_fin_iff)
  show "displace (Fin 0) vs ds ! i = vs ! i"
    using a d by (simp add: displace_nth [OF assms(1) i] fl64_0 fl64_double)
qed

lemma wrap_inside:
  assumes "\<forall>v\<in>set vs. in_half_open l v"
  shows "map (\<lambda>a. np_mod a (Fin l)) vs = vs"
proof (rule map_idI)
  fix v assume "v \<in> set vs"
  then have "in_half_open l v" using assms by simp
  then show "np_mod v (Fin l) = v"
    by (cases v) (simp_all add: in_half_open_def np_mod_id del: np_mod.simps)
qed

lemma move_zero_step:
  assumes "step_length p = Fin 0"
    and "self_x p = Some xs" and "self_y p = Some ys"
    and "length_x (space p) = Fin lx" and "length_y (space p) = Fin ly"
    and "\<forall>v\<in>set xs. is_double_val v \<and> in_half_open lx v"
    and "\<forall>v\<in>set ys. is_double_val v \<and> in_half_open ly v"
  shows "\<exists>g. move p = Inr (p\<lparr>rng := g, steps_done := steps_done p + 1\<rparr>)"
proof -
  define dx where "dx = fst (normal (rng p) (length xs))"
  define g1 where "g1 = snd (normal (rng p) (length xs))"
  define dy where "dy = fst (normal g1 (length ys))"
  define g2 where "g2 = snd (normal g1 (length ys))"
  have x: "displace (Fin 0) xs dx = xs"
    using assms(6) by (intro displace_zero) (auto simp: dx_def length_normal normal_is_fin)
  have y: "displace (Fin 0) ys dy = ys"
    using assms(7) by (intro displace_zero) (auto simp: dy_def length_normal normal_is_fin)
  have wx: "map (\<lambda>a. np_mod a (Fin lx)) xs = xs" using assms(6) by (intro wrap_inside) simp
  have wy: "map (\<lambda>a. np_mod a (Fin ly)) ys = ys" using assms(7) by (intro wrap_inside) simp
  have "move p = Inr (p\<lparr>rng := g2, self_x := Some xs, self_y := Some ys,
                          steps_done := steps_done p + 1\<rparr>)"
    using assms(1-5) x y wx wy
    by (simp add: move_def normalize_positions_def split_beta Let_def
        flip: dx_def g1_def dy_def g2_def)
  moreover have "p\<lparr>rng := g2, self_x := Some xs, self_y := Some ys, steps_done := steps_done p + 1\<rparr>
      = p\<lparr>rng := g2, steps_done := steps_done p + 1\<rparr>"
    using assms(2,3) by (cases p) simp
  ultimately show ?thesis by auto
qed

text \<open>
  Claim C8. With \<open>step_length = 0\<close> and all positions binary64 numbers inside the domain,
  any number \<open>k\<close> of successive calls of \<open>move\<close> succeeds, leaves \<open>x\<close> and \<open>y\<close> exactly as they
  were, and advances \<open>steps_done\<close> by \<open>k\<close>, one per call.
\<close>

theorem zero_step_length_stability:
  assumes "step_length p = Fin 0"
    and "self_x p = Some xs" and "self_y p = Some ys"
    and "length_x (space p) = Fin lx" and "length_y (space p) = Fin ly"
    and "\<forall>v\<in>set xs. is_double_val v \<and> in_half_open lx v"
    and "\<forall>v\<in>set ys. is_double_val v \<and> in_half_open ly v"
  shows "\<exists>p1. moves k p = Inr p1 \<and> self_x p1 = Some xs \<and> self_y p1 = Some ys
           \<and> steps_done p1 = steps_done p + int k"
  using assms
proof (induction k arbitrary: p)
  case 0
  then show ?case by simp
next
  case (Suc k)
  from move_zero_step [OF Suc.prems] obtain g where
    m: "move p = Inr (p\<lparr>rng := g, steps_done := steps_done p + 1\<rparr>)" by blast
  let ?q = "p\<lparr>rng := g, steps_done := steps_done p + 1\<rparr>"
  have "\<exists>p1. moves k ?q = Inr p1 \<and> self_x p1 = Some xs \<and> self_y p1 = Some ys
           \<and> steps_done p1 = steps_done ?q + int k"
    using Suc.prems by (intro Suc.IH) simp_all
  then show ?case using m by auto
qed

theorem zero_step_length_stability_witness:
  "is_double_val (Fin 5) \<and> in_half_open 10 (Fin 5)
   \<and> is_double_val (Fin 0) \<and> in_half_open 10 (Fin 0)
   \<and> is_double_val (Fin 10) \<and> in_half_open 20 (Fin 10)
   \<and> is_double_val (Fin (1 / 2)) \<and> in_half_open 20 (Fin (1 / 2))
   \<and> (\<exists>p1. moves 3 \<lparr>rng = const_draws 3, space = \<lparr>length_x = Fin 10, length_y = Fin 20\<rparr>,
                 self_x = Some [Fin 5, Fin 0], self_y = Some [Fin 10, Fin (1 / 2)],
                 step_length = Fin 0, steps_done = 0\<rparr> = Inr p1
          \<and> self_x p1 = Some [Fin 5, Fin 0] \<and> self_y p1 = Some [Fin 10, Fin (1 / 2)]
          \<and> steps_done p1 = 3)"
  using zero_step_length_stability [of
      "\<lparr>rng = const_draws 3, space = \<lparr>length_x = Fin 10, length_y = Fin 20\<rparr>,
        self_x = Some [Fin 5, Fin 0], self_y = Some [Fin 10, Fin (1 / 2)],
        step_length = Fin 0, steps_done = 0\<rparr>"
      "[Fin 5, Fin 0]" "[Fin 10, Fin (1 / 2)]" 10 20 3]
  by (simp add: is_double_val_def in_half_open_def is_double_small)

subsection \<open>A single particle\<close>

lemma np_mean_single: "is_double a \<Longrightarrow> np_mean [Fin a] = Fin a"
  by (simp add: np_mean_def np_sum_def fl64_double)

lemma np_var_single: "is_double a \<Longrightarrow> np_var [Fin a] = Fin 0"
  by (simp add: np_var_def np_mean_single fsub_def np_sum_def fl64_0)

text \<open>
  Claim C9. For an ensemble of exactly one particle at a finite position (a binary64 number
  in each coordinate), \<open>moment_of_inertia\<close> returns exactly zero.
\<close>

theorem single_particle_zero_inertia:
  assumes "self_x p = Some [Fin a]" and "self_y p = Some [Fin b]"
    and "is_double a" and "is_double b"
  shows "moment_of_inertia p = Inr (Fin 0)"
  using assms by (simp add: moment_of_inertia_def np_var_single fl64_0)

theorem single_particle_zero_inertia_witness:
  "is_double 7 \<and> is_double (1 / 2)
   \<and> moment_of_inertia \<lparr>rng = const_draws 1, space = \<lparr>length_x = Fin 10, length_y = Fin 20\<rparr>,
        self_x = Some [Fin 7], self_y = Some [Fin (1 / 2)],
        step_length = Fin (1 / 2), steps_done = 4\<rparr> = Inr (Fin 0)"
  using single_particle_zero_inertia [of
      "\<lparr>rng = const_draws 1, space = \<lparr>length_x = Fin 10, length_y = Fin 20\<rparr>,
        self_x = Some [Fin 7], self_y = Some [Fin (1 / 2)],
        step_length = Fin (1 / 2), steps_done = 4\<rparr>" 7 "1 / 2"]
  by (simp add: is_double_small)

subsection \<open>Omitted positions\<close>

text \<open>
  Claim C10. A \<open>Particles\<close> object built with the positions omitted (\<open>x\<close> and \<open>y\<close> left at
  \<^verbatim>\<open>None\<close>) is constructed without error, and every later call of \<open>move\<close>,
  \<open>center_of_mass\<close>, \<open>moment_of_inertia\<close> or \<open>positions\<close> on it raises an error instead of
  returning a value.
\<close>

theorem omitted_positions_unusable:
  "\<exists>p. Particles_init g sp None None sl = Inr p
       \<and> move p = Inl AttributeError
       \<and> center_of_mass p = Inl AttributeError
       \<and> moment_of_inertia p = Inl AttributeError
       \<and> positions p = Inl ValueError"
  by (simp add: Particles_init_def move_def center_of_mass_def moment_of_inertia_def positions_def)

theorem omitted_positions_unusable_witness:
  "\<exists>p. Particles_init (const_draws 0) \<lparr>length_x = Fin 10, length_y = Fin 20\<rparr> None None (Fin (1 / 2)) = Inr p
       \<and> move p = Inl AttributeError
       \<and> center_of_mass p = Inl AttributeError
       \<and> moment_of_inertia p = Inl AttributeError
       \<and> positions p = Inl ValueError"
  by (rule omitted_positions_unusable)

end
